theory Spec2Isabelle
  imports Main
begin

section \<open>Data model of \<open>indra_db_lite/tables/best_content.py\<close>\<close>

text \<open>
  The module turns a raw table of hex encoded, compressed texts into the processed
  table, one window of rows at a time, appending each processed window to the output
  file. The model keeps two things of the outside world: the rows of the input table, as
  \<open>pandas.read_csv\<close> has parsed them, and the file at \<open>outpath\<close>, which is absent
  (\<open>None\<close>) or a list of lines. \<open>inpath\<close> and \<open>outpath\<close> are different files.
\<close>

datatype error = UnboundLocalError | ValueError | UnpackError | ExtractError

text \<open>A row of the input of \<open>process_raw_abstracts_csv\<close>, with the column names it passes
  to the reader (the id columns are prefixed, the processed table has the same names).\<close>

record raw_abstract =
  abs_text_ref_id :: int
  abs_tc_id1 :: int
  abs_tc_id2 :: int
  title :: string
  abstract :: string

text \<open>A row of the input of \<open>process_raw_fulltexts_csv\<close>.\<close>

record raw_fulltext =
  ft_text_ref_id :: int
  ft_tc_id1 :: int
  fulltext :: string

text \<open>A row of the processed table; \<open>tc_id2\<close> is Python's \<open>None\<close> for a fulltext.\<close>

record out_row =
  text_ref_id :: int
  tc_id1 :: int
  tc_id2 :: "int option"
  text_type :: string
  content :: string

text \<open>
  A line of the output file is the header \<open>to_csv\<close> writes or one record. A record is
  one line of text: the ids are numbers, and the content comes from \<open>json.dumps\<close>, which
  escapes every line break.
\<close>

datatype line = Header | Data out_row

type_synonym outfile = "line list option"

text \<open>
  The functions of other packages that the module calls, taken as parameters: \<open>unpack\<close> of
  \<open>indra_db.util.helpers\<close> and \<open>universal_extract_paragraphs\<close> of
  \<open>indra.literature.adeft_tools\<close> (\<open>None\<close> when they raise), and \<open>json.dumps\<close> on a list
  of strings.
\<close>

record collab =
  unpack :: "nat list \<Rightarrow> string option"
  universal_extract_paragraphs :: "string \<Rightarrow> string list option"
  dumps :: "string list \<Rightarrow> string"

section \<open>Decoding a payload\<close>

definition isspace :: "char \<Rightarrow> bool" where
  "isspace c = (of_char c \<in> {9, 10, 11, 12, 13, 32 :: nat})"

definition digit_value :: "char \<Rightarrow> nat option" where
  "digit_value c =
     (let n = of_char c :: nat
      in if 48 \<le> n \<and> n \<le> 57 then Some (n - 48)
         else if 97 \<le> n \<and> n \<le> 102 then Some (n - 87)
         else if 65 \<le> n \<and> n \<le> 70 then Some (n - 55)
         else None)"

text \<open>
  \<open>bytes.fromhex\<close>: two hexadecimal digits for each byte, white space allowed between
  bytes, \<open>ValueError\<close> on anything else.
\<close>

fun fromhex :: "string \<Rightarrow> error + nat list" where
  "fromhex [] = Inr []"
| "fromhex (c # cs) =
     (if isspace c then fromhex cs
      else case digit_value c of
        None \<Rightarrow> Inl ValueError
      | Some hi \<Rightarrow>
          (case cs of
             [] \<Rightarrow> Inl ValueError
           | d # ds \<Rightarrow>
               (case digit_value d of
                  None \<Rightarrow> Inl ValueError
                | Some lo \<Rightarrow>
                    (case fromhex ds of
                       Inl e \<Rightarrow> Inl e
                     | Inr bs \<Rightarrow> Inr ((16 * hi + lo) # bs)))))"

text \<open>The lambda of the abstracts loop, \<open>lambda x: unpack(bytes.fromhex(x))\<close>.\<close>

definition unpack_fromhex :: "collab \<Rightarrow> string \<Rightarrow> error + string" where
  "unpack_fromhex E x =
     (case fromhex x of
        Inl e \<Rightarrow> Inl e
      | Inr bs \<Rightarrow> (case unpack E bs of None \<Rightarrow> Inl UnpackError | Some t \<Rightarrow> Inr t))"

definition extract_then_dump :: "collab \<Rightarrow> string \<Rightarrow> error + string" where
  "extract_then_dump E hex_string =
     (case unpack_fromhex E hex_string of
        Inl e \<Rightarrow> Inl e
      | Inr t \<Rightarrow>
          (case universal_extract_paragraphs E t of
             None \<Rightarrow> Inl ExtractError
           | Some ps \<Rightarrow> Inr (dumps E ps)))"

text \<open>
  A function applied to the elements of a column, one after the other; the first element
  on which it raises ends the whole call. This is \<open>Series.apply\<close>, and what one pool
  worker does with a batch of tasks.
\<close>

fun series_apply :: "('a \<Rightarrow> error + 'b) \<Rightarrow> 'a list \<Rightarrow> error + 'b list" where
  "series_apply f [] = Inr []"
| "series_apply f (x # xs) =
     (case f x of
        Inl e \<Rightarrow> Inl e
      | Inr y \<Rightarrow> (case series_apply f xs of Inl e \<Rightarrow> Inl e | Inr ys \<Rightarrow> Inr (y # ys)))"

section \<open>Reading the input in windows, appending to the output\<close>

definition get_line_count :: "line list \<Rightarrow> int" where
  "get_line_count ls = int (length ls)"

definition py_range :: "int \<Rightarrow> int \<Rightarrow> int list" where
  "py_range a b = [a..b - 1]"

function chunks :: "nat \<Rightarrow> 'a list \<Rightarrow> 'a list list" where
  "chunks n xs = (if n = 0 \<or> xs = [] then [] else take n xs # chunks n (drop n xs))"
  by pat_completeness auto
termination
  by (relation "measure (\<lambda>(n, xs). length xs)") auto

declare chunks.simps [simp del]

text \<open>
  \<open>pd.read_csv(inpath, chunksize=..., skiprows=..., names=...)\<close>: with \<open>names\<close> given the
  file has no header line, so line \<open>i\<close> of the file is row \<open>i\<close> of the table, counted from
  0; the lines whose number is in \<open>skiprows\<close> are dropped, and the rest is handed out in
  windows of \<open>chunksize\<close> rows, the last one maybe shorter. A \<open>chunksize\<close> below 1 is
  refused. The cells are taken as parsed: ids as integers, payloads as strings. For a
  table without rows the model hands out no window; what pandas hands out then (one
  empty frame) is not modelled, and no statement below depends on it.
\<close>

definition kept_rows :: "'a list \<Rightarrow> int list \<Rightarrow> 'a list" where
  "kept_rows rows skiprows =
     map snd (filter (\<lambda>(i, r). int i \<notin> set skiprows) (enumerate 0 rows))"

definition read_csv :: "'a list \<Rightarrow> int \<Rightarrow> int list \<Rightarrow> error + 'a list list" where
  "read_csv rows chunksize skiprows =
     (if chunksize < 1 then Inl ValueError
      else Inr (chunks (nat chunksize) (kept_rows rows skiprows)))"

text \<open>
  \<open>output.to_csv(outpath, mode='a', header=not os.path.exists(outpath), index=False)\<close>.
\<close>

definition to_csv :: "outfile \<Rightarrow> out_row list \<Rightarrow> outfile" where
  "to_csv out output =
     (let header = (out = None)
      in Some ((case out of None \<Rightarrow> [] | Some ls \<Rightarrow> ls)
               @ (if header then [Header] else []) @ map Data output))"

section \<open>\<open>process_raw_abstracts_csv\<close>\<close>

definition abstracts_chunk :: "collab \<Rightarrow> raw_abstract list \<Rightarrow> error + out_row list" where
  "abstracts_chunk E chunk =
     (case series_apply (unpack_fromhex E) (map abstract chunk) of
        Inl e \<Rightarrow> Inl e
      | Inr abstracts \<Rightarrow>
          (case series_apply (unpack_fromhex E) (map title chunk) of
             Inl e \<Rightarrow> Inl e
           | Inr titles \<Rightarrow>
               Inr (map (\<lambda>(row, t, a).
                          \<lparr>text_ref_id = abs_text_ref_id row, tc_id1 = abs_tc_id1 row,
                           tc_id2 = Some (abs_tc_id2 row), text_type = ''abstract'',
                           content = dumps E [t, a]\<rparr>)
                        (zip chunk (zip titles abstracts)))))"

text \<open>The loop over the reader. The result is the exception that ended the loop, if any,
  and the output file as the loop leaves it.\<close>

fun abstracts_loop ::
  "collab \<Rightarrow> raw_abstract list list \<Rightarrow> outfile \<Rightarrow> error option \<times> outfile" where
  "abstracts_loop E [] out = (None, out)"
| "abstracts_loop E (chunk # reader) out =
     (case abstracts_chunk E chunk of
        Inl e \<Rightarrow> (Some e, out)
      | Inr output \<Rightarrow> abstracts_loop E reader (to_csv out output))"

text \<open>
  \<open>num_processed_rows\<close> is a local variable that only the branch for an existing file with
  \<open>restart\<close> assigns: it is \<open>None\<close> while it is unassigned, and reading it then raises
  \<open>UnboundLocalError\<close>. The arguments of \<open>read_csv\<close> are evaluated before the call.
\<close>

definition process_raw_abstracts_csv ::
  "collab \<Rightarrow> raw_abstract list \<Rightarrow> outfile \<Rightarrow> int \<Rightarrow> bool \<Rightarrow> error option \<times> outfile" where
  "process_raw_abstracts_csv E inp out chunksize restart =
     (let (num_processed_rows, out1) =
            (case out of
               Some ls \<Rightarrow> if restart then (Some (get_line_count ls), out) else (None, None)
             | None \<Rightarrow> (None, out))
      in case num_processed_rows of
           None \<Rightarrow> (Some UnboundLocalError, out1)
         | Some n \<Rightarrow>
             (case read_csv inp chunksize (py_range 1 (n + 1)) of
                Inl e \<Rightarrow> (Some e, out1)
              | Inr reader \<Rightarrow> abstracts_loop E reader out1))"

section \<open>\<open>process_raw_fulltexts_csv\<close>\<close>

text \<open>
  \<open>Pool.map\<close> cuts the column into batches of consecutive items, hands the batches to the
  workers, and puts the result of batch \<open>i\<close> into slot \<open>i\<close> of its result when the batch
  is done, in whatever order the workers finish. That order is not the program's choice:
  \<open>pick\<close> chooses, among the batches still running, the one that finishes next.
\<close>

function completion_order :: "(nat list \<Rightarrow> nat) \<Rightarrow> nat list \<Rightarrow> nat list" where
  "completion_order pick pending =
     (if pending = [] then []
      else let j = pick pending mod length pending
           in pending ! j # completion_order pick (take j pending @ drop (Suc j) pending))"
  by pat_completeness auto
termination
proof (relation "measure (\<lambda>(pick, pending). length pending)")
  fix pick :: "nat list \<Rightarrow> nat" and pending :: "nat list" and j
  assume "pending \<noteq> []" and j: "j = pick pending mod length pending"
  then have "j < length pending" by simp
  then show "((pick, take j pending @ drop (Suc j) pending), (pick, pending))
               \<in> measure (\<lambda>(pick, pending). length pending)"
    by simp
qed simp

declare completion_order.simps [simp del]

text \<open>
  The results as they arrive: a successful batch is stored in its slot while no batch has
  failed, the first failure is kept, and when every batch has reported the call returns
  the slots in order or raises the failure kept.
\<close>

fun map_result ::
  "('a \<Rightarrow> error + 'b) \<Rightarrow> 'a list list \<Rightarrow> nat list \<Rightarrow> 'b list option list \<Rightarrow> error option
     \<Rightarrow> error + 'b list" where
  "map_result f batches [] slots err =
     (case err of
        Some e \<Rightarrow> Inl e
      | None \<Rightarrow> Inr (concat (map (\<lambda>s. case s of None \<Rightarrow> [] | Some ys \<Rightarrow> ys) slots)))"
| "map_result f batches (i # order) slots err =
     (case series_apply f (batches ! i) of
        Inr ys \<Rightarrow>
          map_result f batches order (if err = None then slots[i := Some ys] else slots) err
      | Inl e \<Rightarrow>
          map_result f batches order slots (if err = None then Some e else err))"

definition pool_map ::
  "(nat list \<Rightarrow> nat) \<Rightarrow> nat \<Rightarrow> ('a \<Rightarrow> error + 'b) \<Rightarrow> 'a list \<Rightarrow> error + 'b list" where
  "pool_map pick processes f iterable =
     (if iterable = [] then Inr []
      else let chunksize = length iterable div (processes * 4);
               extra = length iterable mod (processes * 4);
               chunksize = (if extra \<noteq> 0 then chunksize + 1 else chunksize);
               batches = chunks chunksize iterable
           in map_result f batches (completion_order pick [0..<length batches])
                (replicate (length batches) None) None)"

text \<open>One pass of the loop body up to the write; \<open>Pool(n_jobs)\<close> refuses a number of
  processes below 1.\<close>

definition fulltexts_chunk ::
  "collab \<Rightarrow> (nat list \<Rightarrow> nat) \<Rightarrow> int \<Rightarrow> raw_fulltext list \<Rightarrow> error + out_row list" where
  "fulltexts_chunk E pick n_jobs chunk =
     (if n_jobs < 1 then Inl ValueError
      else case pool_map pick (nat n_jobs) (extract_then_dump E) (map fulltext chunk) of
             Inl e \<Rightarrow> Inl e
           | Inr fulltexts \<Rightarrow>
               Inr (map (\<lambda>(row, c).
                          \<lparr>text_ref_id = ft_text_ref_id row, tc_id1 = ft_tc_id1 row,
                           tc_id2 = None, text_type = ''fulltext'', content = c\<rparr>)
                        (zip chunk fulltexts)))"

text \<open>The loop over the reader; \<open>pick k\<close> is the finishing order in the pool of window
  \<open>k\<close>.\<close>

fun fulltexts_loop ::
  "collab \<Rightarrow> (nat \<Rightarrow> nat list \<Rightarrow> nat) \<Rightarrow> int \<Rightarrow> raw_fulltext list list \<Rightarrow> outfile
     \<Rightarrow> error option \<times> outfile" where
  "fulltexts_loop E pick n_jobs [] out = (None, out)"
| "fulltexts_loop E pick n_jobs (chunk # reader) out =
     (case fulltexts_chunk E (pick 0) n_jobs chunk of
        Inl e \<Rightarrow> (Some e, out)
      | Inr output \<Rightarrow>
          fulltexts_loop E (\<lambda>k. pick (Suc k)) n_jobs reader (to_csv out output))"

definition process_raw_fulltexts_csv ::
  "collab \<Rightarrow> (nat \<Rightarrow> nat list \<Rightarrow> nat) \<Rightarrow> raw_fulltext list \<Rightarrow> outfile \<Rightarrow> int \<Rightarrow> int \<Rightarrow> bool
     \<Rightarrow> error option \<times> outfile" where
  "process_raw_fulltexts_csv E pick inp out chunksize n_jobs restart =
     (let (num_processed_rows, out1) =
            (case out of
               Some ls \<Rightarrow> if restart then (get_line_count ls, out) else (0, None)
             | None \<Rightarrow> (0, out))
      in case read_csv inp chunksize (py_range 1 (num_processed_rows + 1)) of
           Inl e \<Rightarrow> (Some e, out1)
         | Inr reader \<Rightarrow> fulltexts_loop E pick n_jobs reader out1)"

section \<open>Notation for the statements\<close>

text \<open>
  The lines a write starts from (\<open>to_csv\<close> puts the header first when the file is
  absent), and the processed row of an input row whose payloads decode.
\<close>

abbreviation (input) start_lines :: "outfile \<Rightarrow> line list" where
  "start_lines out \<equiv> (case out of None \<Rightarrow> [Header] | Some ls \<Rightarrow> ls)"

abbreviation (input) fulltext_row :: "collab \<Rightarrow> raw_fulltext \<Rightarrow> out_row" where
  "fulltext_row E \<equiv> \<lambda>row.
     \<lparr>text_ref_id = ft_text_ref_id row, tc_id1 = ft_tc_id1 row, tc_id2 = None,
      text_type = ''fulltext'', content = projr (extract_then_dump E (fulltext row))\<rparr>"

abbreviation (input) abstract_row :: "collab \<Rightarrow> raw_abstract \<Rightarrow> out_row" where
  "abstract_row E \<equiv> \<lambda>row.
     \<lparr>text_ref_id = abs_text_ref_id row, tc_id1 = abs_tc_id1 row,
      tc_id2 = Some (abs_tc_id2 row), text_type = ''abstract'',
      content = dumps E [projr (unpack_fromhex E (title row)),
                         projr (unpack_fromhex E (abstract row))]\<rparr>"

section \<open>Test doubles and example tables\<close>

text \<open>
  Stand-ins for the three collaborators, to run the pipeline on small tables: the
  decompressor reads each byte as a character and rejects a payload with a zero byte, the
  extractor cuts the text at every \<open>|\<close> and rejects a text with a \<open>!\<close>, and the
  serializer writes the strings quoted, separated by commas, in brackets.
\<close>

fun split_bar :: "string \<Rightarrow> string list" where
  "split_bar [] = [[]]"
| "split_bar (c # cs) =
     (if c = CHR ''|'' then [] # split_bar cs
      else (case split_bar cs of [] \<Rightarrow> [[c]] | p # ps \<Rightarrow> (c # p) # ps))"

definition test_unpack :: "nat list \<Rightarrow> string option" where
  "test_unpack bs = (if 0 \<in> set bs then None else Some (map char_of bs))"

definition test_extract :: "string \<Rightarrow> string list option" where
  "test_extract t =
     (if CHR ''!'' \<in> set t then None else if t = [] then Some [] else Some (split_bar t))"

fun test_dumps_items :: "string list \<Rightarrow> string" where
  "test_dumps_items [] = []"
| "test_dumps_items [s] = CHR 0x22 # s @ [CHR 0x22]"
| "test_dumps_items (s # ss) = CHR 0x22 # s @ [CHR 0x22] @ '', '' @ test_dumps_items ss"

definition test_dumps :: "string list \<Rightarrow> string" where
  "test_dumps ss = ''['' @ test_dumps_items ss @ '']''"

definition test_collab :: collab where
  "test_collab = \<lparr>unpack = test_unpack, universal_extract_paragraphs = test_extract,
                  dumps = test_dumps\<rparr>"

text \<open>Row \<open>k\<close> of an example fulltext table, and the line it becomes.\<close>

definition fulltext_example :: "int \<Rightarrow> string \<Rightarrow> raw_fulltext" where
  "fulltext_example k h = \<lparr>ft_text_ref_id = k, ft_tc_id1 = 50 + k, fulltext = h\<rparr>"

definition fulltext_line :: "int \<Rightarrow> string \<Rightarrow> line" where
  "fulltext_line k c =
     Data \<lparr>text_ref_id = k, tc_id1 = 50 + k, tc_id2 = None, text_type = ''fulltext'',
           content = c\<rparr>"

text \<open>The finishing orders used below: the batch handed out first finishes first, or
  last.\<close>

definition in_order :: "nat \<Rightarrow> nat list \<Rightarrow> nat" where
  "in_order k pending = 0"

definition last_first :: "nat \<Rightarrow> nat list \<Rightarrow> nat" where
  "last_first k pending = length pending - 1"

section \<open>Properties of the building blocks\<close>

lemma concat_chunks: "0 < n \<Longrightarrow> concat (chunks n xs) = xs"
proof (induction n xs rule: chunks.induct)
  case (1 n xs)
  then show ?case by (subst chunks.simps) auto
qed

lemma chunks_Nil_iff: "0 < n \<Longrightarrow> chunks n xs = [] \<longleftrightarrow> xs = []"
  by (subst chunks.simps) auto

lemma set_py_range: "set (py_range a b) = {a..b - 1}"
  by (simp add: py_range_def)

lemma filter_enumerate_from:
  "1 \<le> k \<Longrightarrow>
   map snd (filter (\<lambda>(i, r). int i \<notin> {1..n}) (enumerate k xs)) = drop (nat n + 1 - k) xs"
proof (induction xs arbitrary: k)
  case Nil
  then show ?case by simp
next
  case (Cons x xs)
  have IH: "map snd (filter (\<lambda>(i, r). int i \<notin> {1..n}) (enumerate (Suc k) xs))
              = drop (nat n + 1 - Suc k) xs"
    using Cons.IH [of "Suc k"] by simp
  show ?case
  proof (cases "int k \<le> n")
    case True
    then have "k \<le> nat n" by linarith
    then have m: "nat n + 1 - k = Suc (nat n - k)" by simp
    then have "nat n + 1 - Suc k = nat n - k" by simp
    with True Cons.prems IH m show ?thesis by simp
  next
    case False
    with Cons.prems have "nat n < k" by linarith
    then have "nat n + 1 - k = 0" "nat n + 1 - Suc k = 0" by simp_all
    with False IH show ?thesis by simp
  qed
qed

lemma kept_rows_range:
  "kept_rows rows (py_range 1 (n + 1)) = take 1 rows @ drop (nat n + 1) rows"
proof (cases rows)
  case Nil
  then show ?thesis by (simp add: kept_rows_def)
next
  case (Cons x xs)
  have "map snd (filter (\<lambda>(i, r). int i \<notin> {1..n}) (enumerate 1 xs)) = drop (nat n) xs"
    using filter_enumerate_from [of 1 n xs] by simp
  then show ?thesis
    using Cons by (simp add: kept_rows_def set_py_range)
qed

lemma kept_rows_none: "kept_rows rows (py_range 1 (0 + 1)) = rows"
  using kept_rows_range [of rows 0] by (cases rows) simp_all

lemma series_apply_Inr_D: "series_apply f xs = Inr ys \<Longrightarrow> map f xs = map Inr ys"
  by (induction xs arbitrary: ys) (auto split: sum.splits)

lemma series_apply_Inr_I: "map f xs = map Inr ys \<Longrightarrow> series_apply f xs = Inr ys"
  by (induction xs arbitrary: ys) auto

lemma series_apply_Inr: "series_apply f xs = Inr ys \<longleftrightarrow> map f xs = map Inr ys"
  using series_apply_Inr_D series_apply_Inr_I by blast

lemma series_apply_Inl:
  "series_apply f xs = Inl e \<Longrightarrow> \<exists>x\<in>set xs. f x = Inl e"
  by (induction xs) (auto split: sum.splits)

lemma series_apply_fails:
  "x \<in> set xs \<Longrightarrow> f x = Inl e \<Longrightarrow> \<exists>e'. series_apply f xs = Inl e'"
  by (induction xs) (auto split: sum.splits)

lemma set_completion_order: "set (completion_order pick pending) = set pending"
proof (induction pick pending rule: completion_order.induct)
  case (1 pick pending)
  show ?case
  proof (cases "pending = []")
    case True
    then show ?thesis by (subst completion_order.simps) simp
  next
    case False
    define j where "j = pick pending mod length pending"
    have j: "j < length pending" using False by (simp add: j_def)
    have "set (completion_order pick (take j pending @ drop (Suc j) pending))
            = set (take j pending @ drop (Suc j) pending)"
      using "1" [OF False j_def] .
    moreover have "pending = take j pending @ pending ! j # drop (Suc j) pending"
      using j by (rule id_take_nth_drop)
    ultimately have "set (pending ! j # completion_order pick (take j pending @ drop (Suc j) pending)) = set pending"
      by (metis Un_insert_right list.simps(15) set_append)
    then show ?thesis
      using False by (subst completion_order.simps) (simp add: j_def Let_def)
  qed
qed

lemma map_result_kept_error: "map_result f batches order slots (Some e) = Inl e"
  by (induction order arbitrary: slots) (auto split: sum.splits)

lemma map_result_all_done:
  "\<forall>i\<in>set order. series_apply f (batches ! i) = Inr (r i) \<Longrightarrow>
   map_result f batches order slots None =
     Inr (concat (map (\<lambda>s. case s of None \<Rightarrow> [] | Some ys \<Rightarrow> ys)
                   (fold (\<lambda>i s. s[i := Some (r i)]) order slots)))"
  by (induction order arbitrary: slots) auto

lemma map_result_one_failed:
  "i \<in> set order \<Longrightarrow> series_apply f (batches ! i) = Inl e \<Longrightarrow>
   \<exists>e' i'. i' \<in> set order \<and> series_apply f (batches ! i') = Inl e'
      \<and> map_result f batches order slots None = Inl e'"
proof (induction order arbitrary: slots)
  case Nil
  then show ?case by simp
next
  case (Cons k order)
  show ?case
  proof (cases "series_apply f (batches ! k)")
    case (Inl ek)
    then have "map_result f batches (k # order) slots None = Inl ek"
      by (simp add: map_result_kept_error)
    with Inl show ?thesis by auto
  next
    case (Inr ys)
    with Cons.prems have "i \<in> set order" by auto
    from Cons.IH [OF this Cons.prems(2), of "slots[k := Some ys]"] Inr
    show ?thesis by auto
  qed
qed

lemma length_fold_slots [simp]:
  "length (fold (\<lambda>i s. s[i := v i]) order slots) = length slots"
  by (induction order arbitrary: slots) auto

lemma nth_fold_slots:
  "j < length slots \<Longrightarrow>
   fold (\<lambda>i s. s[i := v i]) order slots ! j = (if j \<in> set order then v j else slots ! j)"
proof (induction order arbitrary: slots)
  case Nil
  then show ?case by simp
next
  case (Cons k order)
  then show ?case by (cases "j = k") auto
qed

lemma fold_slots_all:
  assumes "set order = {0..<m}"
  shows "fold (\<lambda>i s. s[i := Some (r i)]) order (replicate m None) = map (\<lambda>i. Some (r i)) [0..<m]"
  by (rule nth_equalityI) (simp_all add: nth_fold_slots assms)

lemma concat_slots:
  "concat (map (\<lambda>s. case s of None \<Rightarrow> [] | Some ys \<Rightarrow> ys) (map (\<lambda>i. Some (g (bs ! i))) [0..<length bs]))
     = concat (map g bs)"
proof -
  have "map (\<lambda>s. case s of None \<Rightarrow> [] | Some ys \<Rightarrow> ys) (map (\<lambda>i. Some (g (bs ! i))) [0..<length bs])
          = map g (map (\<lambda>i. bs ! i) [0..<length bs])"
    by simp
  then show ?thesis by (simp only: map_nth)
qed

lemma pool_batch_size:
  assumes "xs \<noteq> []"
  shows "0 < (if length xs mod (p * 4) \<noteq> 0 then length xs div (p * 4) + 1
              else length xs div (p * 4))"
proof (cases "length xs mod (p * 4) = 0")
  case True
  with assms have "p \<noteq> 0" by (cases "p = 0") auto
  moreover from True have "p * 4 dvd length xs" by (simp add: dvd_eq_mod_eq_0)
  with assms have "p * 4 \<le> length xs" by (simp add: dvd_imp_le)
  ultimately show ?thesis using True by (simp add: div_greater_zero_iff)
next
  case False
  then show ?thesis by simp
qed

lemma pool_map_all_done:
  assumes "\<forall>x\<in>set xs. f x = Inr (g x)"
  shows "pool_map pick p f xs = Inr (map g xs)"
proof (cases "xs = []")
  case True
  then show ?thesis by (simp add: pool_map_def)
next
  case False
  define cs where "cs = (if length xs mod (p * 4) \<noteq> 0 then length xs div (p * 4) + 1 else length xs div (p * 4))"
  define batches where "batches = chunks cs xs"
  have cs: "0 < cs" unfolding cs_def using False by (rule pool_batch_size)
  have cat: "concat batches = xs" unfolding batches_def using cs by (rule concat_chunks)
  have ok: "series_apply f b = Inr (map g b)" if "b \<in> set batches" for b
  proof -
    from that cat have "set b \<subseteq> set xs" by (metis Sup_upper image_eqI set_concat)
    with assms have "map f b = map Inr (map g b)" by auto
    then show ?thesis by (rule series_apply_Inr_I)
  qed
  have order: "set (completion_order pick [0..<length batches]) = {0..<length batches}"
    by (simp add: set_completion_order)
  then have "\<forall>i\<in>set (completion_order pick [0..<length batches]).
               series_apply f (batches ! i) = Inr (map g (batches ! i))"
    using ok by simp
  from map_result_all_done [OF this, of "replicate (length batches) None"]
  have "map_result f batches (completion_order pick [0..<length batches])
          (replicate (length batches) None) None = Inr (concat (map (map g) batches))"
    by (simp only: fold_slots_all [OF order] concat_slots)
  also have "concat (map (map g) batches) = map g xs"
    by (simp add: map_concat [symmetric] cat)
  finally show ?thesis
    using False by (simp add: pool_map_def Let_def cs_def batches_def)
qed

lemma pool_map_one_failed:
  assumes "x \<in> set xs" and "f x = Inl e"
  shows "\<exists>e' x'. x' \<in> set xs \<and> f x' = Inl e' \<and> pool_map pick p f xs = Inl e'"
proof -
  from assms have False: "xs \<noteq> []" by auto
  define cs where "cs = (if length xs mod (p * 4) \<noteq> 0 then length xs div (p * 4) + 1 else length xs div (p * 4))"
  define batches where "batches = chunks cs xs"
  have cs: "0 < cs" unfolding cs_def using False by (rule pool_batch_size)
  have cat: "concat batches = xs" unfolding batches_def using cs by (rule concat_chunks)
  with assms(1) obtain b where b: "b \<in> set batches" "x \<in> set b" by (metis UN_E set_concat)
  then obtain i where i: "i < length batches" "batches ! i = b" by (metis in_set_conv_nth)
  from series_apply_fails [of x b f e, OF b(2) assms(2)] obtain eb where "series_apply f (batches ! i) = Inl eb"
    using i by auto
  moreover have "i \<in> set (completion_order pick [0..<length batches])"
    using i by (simp add: set_completion_order)
  ultimately obtain e' i' where r: "i' \<in> set (completion_order pick [0..<length batches])"
      "series_apply f (batches ! i') = Inl e'"
      "map_result f batches (completion_order pick [0..<length batches])
         (replicate (length batches) None) None = Inl e'"
    using map_result_one_failed by blast
  from r(1) have "batches ! i' \<in> set batches" by (simp add: set_completion_order)
  with cat have "set (batches ! i') \<subseteq> set xs" by (metis Sup_upper image_eqI set_concat)
  with series_apply_Inl [OF r(2)] obtain x' where "x' \<in> set xs" "f x' = Inl e'" by auto
  moreover have "pool_map pick p f xs = Inl e'"
    using False r(3) by (simp add: pool_map_def Let_def cs_def batches_def)
  ultimately show ?thesis by blast
qed

section \<open>One window\<close>

lemma to_csv_eq: "to_csv out output = Some (start_lines out @ map Data output)"
  by (cases out) (simp_all add: to_csv_def)

lemma map_zip_map: "map (\<lambda>(x, y). F x y) (zip xs (map h xs)) = map (\<lambda>x. F x (h x)) xs"
  by (induction xs) auto

lemma fulltexts_chunk_done:
  assumes "1 \<le> n_jobs" and "\<forall>row\<in>set chunk. \<not> isl (extract_then_dump E (fulltext row))"
  shows "fulltexts_chunk E pick n_jobs chunk = Inr (map (fulltext_row E) chunk)"
proof -
  have "\<forall>x\<in>set (map fulltext chunk). extract_then_dump E x = Inr (projr (extract_then_dump E x))"
    using assms(2) by (simp add: sum.collapse(2))
  then have "pool_map pick (nat n_jobs) (extract_then_dump E) (map fulltext chunk)
          = Inr (map (\<lambda>x. projr (extract_then_dump E x)) (map fulltext chunk))"
    by (rule pool_map_all_done)
  then show ?thesis
    using assms(1) map_zip_map [of "\<lambda>row c. \<lparr>text_ref_id = ft_text_ref_id row, tc_id1 = ft_tc_id1 row, tc_id2 = None,
      text_type = ''fulltext'', content = c\<rparr>" chunk "\<lambda>row. projr (extract_then_dump E (fulltext row))"]
    by (simp add: fulltexts_chunk_def comp_def)
qed

lemma fulltexts_chunk_failed:
  assumes "row \<in> set chunk" and "isl (extract_then_dump E (fulltext row))"
  shows "\<exists>e'. fulltexts_chunk E pick n_jobs chunk = Inl e'"
proof (cases "n_jobs < 1")
  case True
  then show ?thesis by (simp add: fulltexts_chunk_def)
next
  case False
  from assms(2) obtain e where e: "extract_then_dump E (fulltext row) = Inl e"
    by (auto simp: isl_def)
  from assms have "fulltext row \<in> set (map fulltext chunk)" by simp
  from pool_map_one_failed
         [of "fulltext row" "map fulltext chunk" "extract_then_dump E" e pick "nat n_jobs", OF this e]
  obtain e' where "pool_map pick (nat n_jobs) (extract_then_dump E) (map fulltext chunk) = Inl e'"
    by blast
  with False show ?thesis by (simp add: fulltexts_chunk_def)
qed

lemma fulltexts_chunk_Inr:
  assumes "fulltexts_chunk E pick n_jobs chunk = Inr output"
  shows "1 \<le> n_jobs"
    and "\<forall>row\<in>set chunk. \<not> isl (extract_then_dump E (fulltext row))"
    and "output = map (fulltext_row E) chunk"
proof -
  show n: "1 \<le> n_jobs" using assms by (auto simp: fulltexts_chunk_def split: if_splits)
  show ok: "\<forall>row\<in>set chunk. \<not> isl (extract_then_dump E (fulltext row))"
  proof
    fix row assume row: "row \<in> set chunk"
    show "\<not> isl (extract_then_dump E (fulltext row))"
    proof
      assume "isl (extract_then_dump E (fulltext row))"
      from fulltexts_chunk_failed [OF row this, of pick n_jobs] assms show False by auto
    qed
  qed
  from fulltexts_chunk_done [OF n ok, of pick] assms
  show "output = map (fulltext_row E) chunk" by simp
qed

lemma fulltexts_loop_any:
  "fulltexts_loop E pick n_jobs reader out = (err, out') \<Longrightarrow>
   \<exists>k\<le>length reader.
      (\<forall>row\<in>set (concat (take k reader)). \<not> isl (extract_then_dump E (fulltext row)))
    \<and> out' = (if k = 0 then out
              else Some (start_lines out @ map Data (map (fulltext_row E) (concat (take k reader)))))
    \<and> (err = None \<longleftrightarrow> k = length reader)
    \<and> (0 < k \<longrightarrow> 1 \<le> n_jobs)"
proof (induction reader arbitrary: pick out)
  case Nil
  then show ?case by simp
next
  case (Cons chunk reader)
  show ?case
  proof (cases "fulltexts_chunk E (pick 0) n_jobs chunk")
    case (Inl e)
    with Cons.prems have "err = Some e" "out' = out" by auto
    then show ?thesis by (intro exI [of _ 0]) simp
  next
    case (Inr written)
    note c = fulltexts_chunk_Inr [OF Inr]
    from Inr Cons.prems
    have "fulltexts_loop E (\<lambda>k. pick (Suc k)) n_jobs reader (to_csv out written) = (err, out')"
      by simp
    from Cons.IH [OF this] obtain k where k: "k \<le> length reader"
      "\<forall>row\<in>set (concat (take k reader)). \<not> isl (extract_then_dump E (fulltext row))"
      "out' = (if k = 0 then to_csv out written
              else Some (start_lines (to_csv out written)
                         @ map Data (map (fulltext_row E) (concat (take k reader)))))"
      "err = None \<longleftrightarrow> k = length reader"
      by blast
    show ?thesis
    proof (intro exI [of _ "Suc k"] conjI)
      show "Suc k \<le> length (chunk # reader)" using k(1) by simp
      show "\<forall>row\<in>set (concat (take (Suc k) (chunk # reader))).
              \<not> isl (extract_then_dump E (fulltext row))"
        using k(2) c(2) by auto
      show "out' = (if Suc k = 0 then out
              else Some (start_lines out
                         @ map Data (map (fulltext_row E) (concat (take (Suc k) (chunk # reader))))))"
        using k(3) c(3) by (simp add: to_csv_eq)
      show "err = None \<longleftrightarrow> Suc k = length (chunk # reader)" using k(4) by simp
      show "0 < Suc k \<longrightarrow> 1 \<le> n_jobs" using c(1) by simp
    qed
  qed
qed

lemma fulltexts_loop_all_done:
  assumes "1 \<le> n_jobs"
    and "\<forall>row\<in>set (concat reader). \<not> isl (extract_then_dump E (fulltext row))"
  shows "fulltexts_loop E pick n_jobs reader out =
           (None, if reader = [] then out
                  else Some (start_lines out @ map Data (map (fulltext_row E) (concat reader))))"
  using assms(2)
proof (induction reader arbitrary: pick out)
  case Nil
  then show ?case by simp
next
  case (Cons chunk reader)
  have "fulltexts_chunk E (pick 0) n_jobs chunk = Inr (map (fulltext_row E) chunk)"
    using Cons.prems by (intro fulltexts_chunk_done [OF assms(1)]) simp
  moreover have "fulltexts_loop E (\<lambda>k. pick (Suc k)) n_jobs reader
                   (to_csv out (map (fulltext_row E) chunk))
        = (None, if reader = [] then to_csv out (map (fulltext_row E) chunk)
                 else Some (start_lines (to_csv out (map (fulltext_row E) chunk))
                            @ map Data (map (fulltext_row E) (concat reader))))"
    using Cons.prems by (intro Cons.IH) simp
  ultimately show ?case by (simp add: to_csv_eq)
qed

lemma fulltexts_loop_failed:
  assumes "row \<in> set chunk" and "isl (extract_then_dump E (fulltext row))"
  shows "\<exists>e'. fulltexts_loop E pick n_jobs (chunk # reader) out = (Some e', out)"
  using fulltexts_chunk_failed [OF assms, of "pick 0" n_jobs] by auto

lemma map_zip_zip_map:
  "map (\<lambda>(x, y, z). F x y z) (zip xs (zip (map h xs) (map g xs))) = map (\<lambda>x. F x (h x) (g x)) xs"
  by (induction xs) auto

lemma series_apply_all_done:
  "\<forall>x\<in>set xs. \<not> isl (f (h x)) \<Longrightarrow>
   series_apply f (map h xs) = Inr (map (\<lambda>x. projr (f (h x))) xs)"
  by (rule series_apply_Inr_I) (simp add: sum.collapse(2))

lemma abstracts_chunk_done:
  assumes "\<forall>row\<in>set chunk. \<not> isl (unpack_fromhex E (title row))
                            \<and> \<not> isl (unpack_fromhex E (abstract row))"
  shows "abstracts_chunk E chunk = Inr (map (abstract_row E) chunk)"
proof -
  have a: "series_apply (unpack_fromhex E) (map abstract chunk)
             = Inr (map (\<lambda>row. projr (unpack_fromhex E (abstract row))) chunk)"
    using assms by (intro series_apply_all_done) simp
  have t: "series_apply (unpack_fromhex E) (map title chunk)
             = Inr (map (\<lambda>row. projr (unpack_fromhex E (title row))) chunk)"
    using assms by (intro series_apply_all_done) simp
  show ?thesis
    unfolding abstracts_chunk_def a t
    using map_zip_zip_map [of "\<lambda>row t a. \<lparr>text_ref_id = abs_text_ref_id row, tc_id1 = abs_tc_id1 row,
      tc_id2 = Some (abs_tc_id2 row), text_type = ''abstract'', content = dumps E [t, a]\<rparr>"
      chunk "\<lambda>row. projr (unpack_fromhex E (title row))" "\<lambda>row. projr (unpack_fromhex E (abstract row))"]
    by simp
qed

lemma abstracts_chunk_failed:
  assumes "row \<in> set chunk"
    and "isl (unpack_fromhex E (title row)) \<or> isl (unpack_fromhex E (abstract row))"
  shows "\<exists>e'. abstracts_chunk E chunk = Inl e'"
proof (cases "series_apply (unpack_fromhex E) (map abstract chunk)")
  case (Inl e)
  then show ?thesis by (simp add: abstracts_chunk_def)
next
  case (Inr abstracts)
  have "\<not> isl (unpack_fromhex E (abstract row))"
  proof
    assume "isl (unpack_fromhex E (abstract row))"
    then obtain e where "unpack_fromhex E (abstract row) = Inl e" by (auto simp: isl_def)
    from series_apply_fails [of "abstract row" "map abstract chunk" "unpack_fromhex E" e] this assms(1)
    show False using Inr by auto
  qed
  with assms(2) obtain e where "unpack_fromhex E (title row) = Inl e" by (auto simp: isl_def)
  from series_apply_fails [of "title row" "map title chunk" "unpack_fromhex E" e] this assms(1)
  obtain e' where "series_apply (unpack_fromhex E) (map title chunk) = Inl e'" by auto
  with Inr show ?thesis by (simp add: abstracts_chunk_def)
qed

lemma abstracts_chunk_Inr:
  assumes "abstracts_chunk E chunk = Inr written"
  shows "\<forall>row\<in>set chunk. \<not> isl (unpack_fromhex E (title row))
                            \<and> \<not> isl (unpack_fromhex E (abstract row))"
    and "written = map (abstract_row E) chunk"
proof -
  show ok: "\<forall>row\<in>set chunk. \<not> isl (unpack_fromhex E (title row))
                            \<and> \<not> isl (unpack_fromhex E (abstract row))"
  proof
    fix row assume row: "row \<in> set chunk"
    show "\<not> isl (unpack_fromhex E (title row)) \<and> \<not> isl (unpack_fromhex E (abstract row))"
    proof (rule ccontr)
      assume "\<not> ?thesis"
      then have "isl (unpack_fromhex E (title row)) \<or> isl (unpack_fromhex E (abstract row))"
        by blast
      from abstracts_chunk_failed [OF row this] assms show False by auto
    qed
  qed
  from abstracts_chunk_done [OF ok] assms show "written = map (abstract_row E) chunk" by simp
qed

lemma abstracts_loop_any:
  "abstracts_loop E reader out = (err, out') \<Longrightarrow>
   \<exists>k\<le>length reader.
      (\<forall>row\<in>set (concat (take k reader)).
          \<not> isl (unpack_fromhex E (title row)) \<and> \<not> isl (unpack_fromhex E (abstract row)))
    \<and> out' = (if k = 0 then out
              else Some (start_lines out @ map Data (map (abstract_row E) (concat (take k reader)))))
    \<and> (err = None \<longleftrightarrow> k = length reader)"
proof (induction reader arbitrary: out)
  case Nil
  then show ?case by simp
next
  case (Cons chunk reader)
  show ?case
  proof (cases "abstracts_chunk E chunk")
    case (Inl e)
    with Cons.prems have "err = Some e" "out' = out" by auto
    then show ?thesis by (intro exI [of _ 0]) simp
  next
    case (Inr written)
    note c = abstracts_chunk_Inr [OF Inr]
    from Inr Cons.prems
    have "abstracts_loop E reader (to_csv out written) = (err, out')"
      by simp
    from Cons.IH [OF this] obtain k where k: "k \<le> length reader"
      "\<forall>row\<in>set (concat (take k reader)).
          \<not> isl (unpack_fromhex E (title row)) \<and> \<not> isl (unpack_fromhex E (abstract row))"
      "out' = (if k = 0 then to_csv out written
              else Some (start_lines (to_csv out written)
                         @ map Data (map (abstract_row E) (concat (take k reader)))))"
      "err = None \<longleftrightarrow> k = length reader"
      by blast
    show ?thesis
    proof (intro exI [of _ "Suc k"] conjI)
      show "Suc k \<le> length (chunk # reader)" using k(1) by simp
      show "\<forall>row\<in>set (concat (take (Suc k) (chunk # reader))).
              \<not> isl (unpack_fromhex E (title row)) \<and> \<not> isl (unpack_fromhex E (abstract row))"
        using k(2) c(1) by auto
      show "out' = (if Suc k = 0 then out
              else Some (start_lines out
                         @ map Data (map (abstract_row E) (concat (take (Suc k) (chunk # reader))))))"
        using k(3) c(2) by (simp add: to_csv_eq)
      show "err = None \<longleftrightarrow> Suc k = length (chunk # reader)" using k(4) by simp
    qed
  qed
qed

lemma abstracts_loop_failed:
  assumes "row \<in> set chunk"
    and "isl (unpack_fromhex E (title row)) \<or> isl (unpack_fromhex E (abstract row))"
  shows "\<exists>e'. abstracts_loop E (chunk # reader) out = (Some e', out)"
  using abstracts_chunk_failed [OF assms] by auto



section \<open>The whole call\<close>

lemma list_all2_map_same: "(\<And>x. x \<in> set xs \<Longrightarrow> P x (f x)) \<Longrightarrow> list_all2 P xs (map f xs)"
  by (induction xs) auto

lemma not_isl_Inr: "\<not> isl v \<Longrightarrow> v = Inr (projr v)"
  by (cases v) auto



lemma process_raw_fulltexts_csv_restart:
  "process_raw_fulltexts_csv E pick inp (Some ls) chunksize n_jobs True =
     (if chunksize < 1 then (Some ValueError, Some ls)
      else fulltexts_loop E pick n_jobs
             (chunks (nat chunksize) (kept_rows inp (py_range 1 (get_line_count ls + 1)))) (Some ls))"
  by (simp add: process_raw_fulltexts_csv_def read_csv_def)

lemma process_raw_fulltexts_csv_fresh:
  "out = None \<or> \<not> restart \<Longrightarrow>
   process_raw_fulltexts_csv E pick inp out chunksize n_jobs restart =
     (if chunksize < 1 then (Some ValueError, None)
      else fulltexts_loop E pick n_jobs (chunks (nat chunksize) inp) None)"
  using kept_rows_none [of inp]
  by (cases out) (auto simp: process_raw_fulltexts_csv_def read_csv_def)

lemma fulltexts_overwrite_is_first_run:
  "process_raw_fulltexts_csv E pick inp (Some ls) chunksize n_jobs False =
     process_raw_fulltexts_csv E pick inp None chunksize n_jobs False"
  by (simp add: process_raw_fulltexts_csv_fresh)

lemma concat_take_prefix:
  "concat (take k xss) = take (length (concat (take k xss))) (concat xss)"
proof -
  have "concat xss = concat (take k xss) @ concat (drop k xss)"
    by (metis append_take_drop_id concat_append)
  then show ?thesis by simp
qed


lemma fulltexts_chunk_order_irrelevant:
  "fulltexts_chunk E pick n_jobs chunk = Inr written \<Longrightarrow>
   fulltexts_chunk E pick' n_jobs chunk = Inr written"
  using fulltexts_chunk_Inr [of E pick n_jobs chunk written]
        fulltexts_chunk_done [of n_jobs chunk E pick']
  by simp

lemma fulltexts_loop_order_irrelevant:
  "snd (fulltexts_loop E pick n_jobs reader out) = snd (fulltexts_loop E pick' n_jobs reader out)"
proof (induction reader arbitrary: pick pick' out)
  case Nil
  show ?case by simp
next
  case (Cons chunk reader)
  show ?case
  proof (cases "fulltexts_chunk E (pick 0) n_jobs chunk")
    case (Inl e)
    have "\<exists>e'. fulltexts_chunk E (pick' 0) n_jobs chunk = Inl e'"
    proof (cases "fulltexts_chunk E (pick' 0) n_jobs chunk")
      case (Inr written)
      from fulltexts_chunk_order_irrelevant [OF this, of "pick 0"] Inl show ?thesis by simp
    qed simp
    with Inl show ?thesis by auto
  next
    case (Inr written)
    from fulltexts_chunk_order_irrelevant [OF this, of "pick' 0"]
    have "fulltexts_chunk E (pick' 0) n_jobs chunk = Inr written" .
    with Inr Cons.IH [of "\<lambda>k. pick (Suc k)" "to_csv out written" "\<lambda>k. pick' (Suc k)"]
    show ?thesis by simp
  qed
qed

lemma process_raw_fulltexts_csv_order_irrelevant:
  "snd (process_raw_fulltexts_csv E pick inp out chunksize n_jobs restart)
     = snd (process_raw_fulltexts_csv E pick' inp out chunksize n_jobs restart)"
  using fulltexts_loop_order_irrelevant [of E pick n_jobs _ _ pick']
  by (simp add: process_raw_fulltexts_csv_def split: option.splits sum.splits prod.splits)

section \<open>The claims\<close>

text \<open>
  C10. In \<open>process_raw_abstracts_csv\<close> the skip counter is assigned only when the output
  file exists and \<open>restart\<close> is true. In every other call, whether the file is absent or
  it exists and \<open>restart\<close> is false, the function raises \<open>UnboundLocalError\<close> before it
  reads a row, and no output file is left: an existing one has been removed by then.
\<close>

theorem abstracts_skip_counter_unassigned:
  "out = None \<or> \<not> restart \<Longrightarrow>
   process_raw_abstracts_csv E inp out chunksize restart = (Some UnboundLocalError, None)"
  by (auto simp: process_raw_abstracts_csv_def split: option.splits)

theorem abstracts_skip_counter_unassigned_witness:
  "process_raw_abstracts_csv test_collab
     [\<lparr>abs_text_ref_id = 7, abs_tc_id1 = 101, abs_tc_id2 = 102,
       title = ''5469746c652041'', abstract = ''41627374726163742041''\<rparr>]
     (Some [Header, fulltext_line 1 ''[]'']) 1000000 False = (Some UnboundLocalError, None)
   \<and> process_raw_abstracts_csv test_collab
     [\<lparr>abs_text_ref_id = 7, abs_tc_id1 = 101, abs_tc_id2 = 102,
       title = ''5469746c652041'', abstract = ''41627374726163742041''\<rparr>]
     None 1000000 True = (Some UnboundLocalError, None)"
  using abstracts_skip_counter_unassigned
          [of "Some [Header, fulltext_line 1 ''[]'']" False test_collab
              "[\<lparr>abs_text_ref_id = 7, abs_tc_id1 = 101, abs_tc_id2 = 102,
                 title = ''5469746c652041'', abstract = ''41627374726163742041''\<rparr>]" 1000000]
        abstracts_skip_counter_unassigned
          [of None True test_collab
              "[\<lparr>abs_text_ref_id = 7, abs_tc_id1 = 101, abs_tc_id2 = 102,
                 title = ''5469746c652041'', abstract = ''41627374726163742041''\<rparr>]" 1000000]
  by simp

text \<open>
  C4. With \<open>restart\<close> false and a file at \<open>outpath\<close>, the file is removed and the input is
  processed from row 0, as in a first run. \<open>process_raw_fulltexts_csv\<close> does so
  (\<open>fulltexts_overwrite_is_first_run\<close>); \<open>process_raw_abstracts_csv\<close> removes the file and
  then raises, as the call below shows.
\<close>

theorem abstracts_overwrite_removes_and_raises:
  "process_raw_abstracts_csv test_collab
     [\<lparr>abs_text_ref_id = 7, abs_tc_id1 = 101, abs_tc_id2 = 102,
       title = ''5469746c652041'', abstract = ''41627374726163742041''\<rparr>]
     (Some [Header,
            Data \<lparr>text_ref_id = 7, tc_id1 = 101, tc_id2 = Some 102, text_type = ''abstract'',
                  content = ''[\"Old\", \"Old\"]''\<rparr>])
     1000000 False
   = (Some UnboundLocalError, None)"
  by code_simp

text \<open>
  C1. A run interrupted after K whole windows and called again with \<open>restart\<close> true
  processes exactly the rows not yet processed. The code does not: with five rows in
  windows of two, the file after the first window holds the header and rows 0 and 1, and
  the restarted run reads row 0 again, leaves out rows 2 and 3, and appends rows 0 and 4.
\<close>

theorem restart_after_one_window_repeats_and_skips:
  "read_csv [fulltext_example 0 ''41'', fulltext_example 1 ''42'', fulltext_example 2 ''43'',
             fulltext_example 3 ''44'', fulltext_example 4 ''45''] 2 (py_range 1 (0 + 1))
     = Inr [[fulltext_example 0 ''41'', fulltext_example 1 ''42''],
            [fulltext_example 2 ''43'', fulltext_example 3 ''44''],
            [fulltext_example 4 ''45'']]
   \<and> fulltexts_loop test_collab in_order 1
       [[fulltext_example 0 ''41'', fulltext_example 1 ''42'']] None
     = (None, Some [Header, fulltext_line 0 ''[\"A\"]'', fulltext_line 1 ''[\"B\"]''])
   \<and> process_raw_fulltexts_csv test_collab in_order
       [fulltext_example 0 ''41'', fulltext_example 1 ''42'', fulltext_example 2 ''43'',
        fulltext_example 3 ''44'', fulltext_example 4 ''45'']
       (Some [Header, fulltext_line 0 ''[\"A\"]'', fulltext_line 1 ''[\"B\"]'']) 2 1 True
     = (None, Some [Header, fulltext_line 0 ''[\"A\"]'', fulltext_line 1 ''[\"B\"]'',
                    fulltext_line 0 ''[\"A\"]'', fulltext_line 4 ''[\"E\"]''])"
  by code_simp

text \<open>
  C2. Running to completion and then again with \<open>restart\<close> true appends nothing. The code
  does not: after a complete run on three rows, the second run reads row 0 again and
  appends it.
\<close>

theorem rerun_on_complete_output_appends_row:
  "process_raw_fulltexts_csv test_collab in_order
       [fulltext_example 0 ''41'', fulltext_example 1 ''42'', fulltext_example 2 ''43'']
       None 2 1 False
     = (None, Some [Header, fulltext_line 0 ''[\"A\"]'', fulltext_line 1 ''[\"B\"]'',
                    fulltext_line 2 ''[\"C\"]''])
   \<and> process_raw_fulltexts_csv test_collab in_order
       [fulltext_example 0 ''41'', fulltext_example 1 ''42'', fulltext_example 2 ''43'']
       (Some [Header, fulltext_line 0 ''[\"A\"]'', fulltext_line 1 ''[\"B\"]'',
              fulltext_line 2 ''[\"C\"]'']) 2 1 True
     = (None, Some [Header, fulltext_line 0 ''[\"A\"]'', fulltext_line 1 ''[\"B\"]'',
                    fulltext_line 2 ''[\"C\"]'', fulltext_line 0 ''[\"A\"]''])"
  by code_simp

text \<open>
  C3. With \<open>restart\<close> true and an existing output file, the number of input rows skipped
  is the line count of the file minus one. The code skips as many rows as the file has
  lines, header included, and starts skipping at row 1: with a header and two records in
  the file, rows 1, 2 and 3 of five are skipped and rows 0 and 4 are read.
\<close>

theorem restart_skips_one_row_per_line:
  "get_line_count [Header, fulltext_line 0 ''[\"A\"]'', fulltext_line 1 ''[\"B\"]''] = 3
   \<and> kept_rows [fulltext_example 0 ''41'', fulltext_example 1 ''42'', fulltext_example 2 ''43'',
                fulltext_example 3 ''44'', fulltext_example 4 ''45'']
       (py_range 1
          (get_line_count [Header, fulltext_line 0 ''[\"A\"]'', fulltext_line 1 ''[\"B\"]''] + 1))
     = [fulltext_example 0 ''41'', fulltext_example 4 ''45'']
   \<and> process_raw_fulltexts_csv test_collab in_order
       [fulltext_example 0 ''41'', fulltext_example 1 ''42'', fulltext_example 2 ''43'',
        fulltext_example 3 ''44'', fulltext_example 4 ''45'']
       (Some [Header, fulltext_line 0 ''[\"A\"]'', fulltext_line 1 ''[\"B\"]'']) 10 1 True
     = fulltexts_loop test_collab in_order 1
         [[fulltext_example 0 ''41'', fulltext_example 4 ''45'']]
         (Some [Header, fulltext_line 0 ''[\"A\"]'', fulltext_line 1 ''[\"B\"]''])"
  by code_simp





text \<open>
  C7. When a window holds a row whose hex-decoding, decompression or paragraph extraction
  fails, no row of that window is written and the exception reaches the caller: the loop
  ends at that window with the output file as it was before the window, in both
  functions. The transformation of the whole window is done before the write.
\<close>

theorem failing_window_is_not_written:
  "(row \<in> set chunk \<and> isl (extract_then_dump E (fulltext row))
      \<longrightarrow> (\<exists>e. fulltexts_loop E pick n_jobs (chunk # reader) out = (Some e, out)))
   \<and> (arow \<in> set achunk
        \<and> (isl (unpack_fromhex E (title arow)) \<or> isl (unpack_fromhex E (abstract arow)))
      \<longrightarrow> (\<exists>e. abstracts_loop E (achunk # areader) aout = (Some e, aout)))"
  using fulltexts_loop_failed [of row chunk E pick n_jobs reader out]
        abstracts_loop_failed [of arow achunk E areader aout]
  by blast

theorem failing_window_is_not_written_witness:
  "process_raw_fulltexts_csv test_collab in_order
     [fulltext_example 0 ''41'', fulltext_example 1 ''42'', fulltext_example 2 ''43'',
      fulltext_example 3 ''44'', fulltext_example 4 ''4500'', fulltext_example 5 ''46'',
      fulltext_example 6 ''47'', fulltext_example 7 ''48'', fulltext_example 8 ''49'',
      fulltext_example 9 ''4a''] None 10 1 False = (Some UnpackError, None)
   \<and> (\<exists>e. fulltexts_loop test_collab in_order 1
         [[fulltext_example 0 ''41'', fulltext_example 1 ''42'', fulltext_example 2 ''43'',
           fulltext_example 3 ''44'', fulltext_example 4 ''4500'', fulltext_example 5 ''46'',
           fulltext_example 6 ''47'', fulltext_example 7 ''48'', fulltext_example 8 ''49'',
           fulltext_example 9 ''4a'']] None = (Some e, None))
   \<and> (\<exists>e. abstracts_loop test_collab
         [[\<lparr>abs_text_ref_id = 7, abs_tc_id1 = 101, abs_tc_id2 = 102,
            title = ''5469746c652041'', abstract = ''41627374726163742041''\<rparr>,
           \<lparr>abs_text_ref_id = 8, abs_tc_id1 = 103, abs_tc_id2 = 104,
            title = ''54697'', abstract = ''41627374726163742041''\<rparr>]] (Some [])
         = (Some e, Some []))"
proof -
  let ?chunk = "[fulltext_example 0 ''41'', fulltext_example 1 ''42'', fulltext_example 2 ''43'',
      fulltext_example 3 ''44'', fulltext_example 4 ''4500'', fulltext_example 5 ''46'',
      fulltext_example 6 ''47'', fulltext_example 7 ''48'', fulltext_example 8 ''49'',
      fulltext_example 9 ''4a'']"
  let ?arow = "\<lparr>abs_text_ref_id = 8, abs_tc_id1 = 103, abs_tc_id2 = 104,
            title = ''54697'', abstract = ''41627374726163742041''\<rparr>"
  let ?achunk = "[\<lparr>abs_text_ref_id = 7, abs_tc_id1 = 101, abs_tc_id2 = 102,
            title = ''5469746c652041'', abstract = ''41627374726163742041''\<rparr>, ?arow]"
  have run: "process_raw_fulltexts_csv test_collab in_order ?chunk None 10 1 False
               = (Some UnpackError, None)"
    by code_simp
  have bad: "fulltext_example 4 ''4500'' \<in> set ?chunk
               \<and> isl (extract_then_dump test_collab (fulltext (fulltext_example 4 ''4500'')))"
    by code_simp
  have abad: "?arow \<in> set ?achunk
               \<and> (isl (unpack_fromhex test_collab (title ?arow))
                    \<or> isl (unpack_fromhex test_collab (abstract ?arow)))"
    by code_simp
  note inst = failing_window_is_not_written
               [where row = "fulltext_example 4 ''4500''" and chunk = ?chunk and E = test_collab
                  and pick = in_order and n_jobs = 1 and reader = "[]" and out = None
                  and arow = ?arow and achunk = ?achunk and areader = "[]" and aout = "Some []"]
  have a: "\<exists>e. fulltexts_loop test_collab in_order 1 [?chunk] None = (Some e, None)"
    by (rule inst [THEN conjunct1, THEN mp, OF bad])
  have b: "\<exists>e. abstracts_loop test_collab [?achunk] (Some []) = (Some e, Some [])"
    by (rule inst [THEN conjunct2, THEN mp, OF abad])
  from run a b show ?thesis by (intro conjI)
qed

text \<open>
  C8. In a run that starts without an output file, the header is written once, by the
  first write, which finds the file absent; every later write of the run appends records
  only. So whenever such a run leaves a file, after two writes or more as after one, its
  first line is the header and no other line is.
\<close>

theorem header_written_once:
  "(process_raw_fulltexts_csv E pick inp None chunksize n_jobs restart = (err, Some ls)
      \<longrightarrow> (\<exists>rows. ls = Header # map Data rows) \<and> count_list ls Header = 1)
   \<and> (abstracts_loop E areader None = (aerr, Some als)
      \<longrightarrow> (\<exists>rows. als = Header # map Data rows) \<and> count_list als Header = 1)"
proof (intro conjI impI)
  have count: "count_list (Header # map Data rows) Header = 1" for rows
    by (induction rows) auto
  {
    assume run: "process_raw_fulltexts_csv E pick inp None chunksize n_jobs restart = (err, Some ls)"
    then have "fulltexts_loop E pick n_jobs (chunks (nat chunksize) inp) None = (err, Some ls)"
      by (auto simp: process_raw_fulltexts_csv_fresh split: if_splits)
    from fulltexts_loop_any [OF this]
    obtain k where "Some ls = (if k = 0 then None
        else Some (start_lines None
                   @ map Data (map (fulltext_row E)
                                 (concat (take k (chunks (nat chunksize) inp))))))"
      by (elim exE conjE)
    then have "ls = Header # map Data (map (fulltext_row E)
                                         (concat (take k (chunks (nat chunksize) inp))))"
      by (cases "k = 0") simp_all
    then obtain rows where rows: "ls = Header # map Data rows" ..
    then show "\<exists>rows. ls = Header # map Data rows" by blast
    from rows count show "count_list ls Header = 1" by simp
  }
  {
    assume "abstracts_loop E areader None = (aerr, Some als)"
    from abstracts_loop_any [OF this]
    obtain k where "Some als = (if k = 0 then None
        else Some (start_lines None
                   @ map Data (map (abstract_row E) (concat (take k areader)))))"
      by (elim exE conjE)
    then have "als = Header # map Data (map (abstract_row E) (concat (take k areader)))"
      by (cases "k = 0") simp_all
    then obtain rows where rows: "als = Header # map Data rows" ..
    then show "\<exists>rows. als = Header # map Data rows" by blast
    from rows count show "count_list als Header = 1" by simp
  }
qed

theorem header_written_once_witness:
  "process_raw_fulltexts_csv test_collab in_order
       [fulltext_example 0 ''41'', fulltext_example 1 ''42'', fulltext_example 2 ''43'',
        fulltext_example 3 ''44'', fulltext_example 4 ''45''] None 2 1 False
     = (None, Some [Header, fulltext_line 0 ''[\"A\"]'', fulltext_line 1 ''[\"B\"]'',
                    fulltext_line 2 ''[\"C\"]'', fulltext_line 3 ''[\"D\"]'',
                    fulltext_line 4 ''[\"E\"]''])
   \<and> length (chunks 2 [fulltext_example 0 ''41'', fulltext_example 1 ''42'',
                          fulltext_example 2 ''43'', fulltext_example 3 ''44'',
                          fulltext_example 4 ''45'']) = 3
   \<and> count_list [Header, fulltext_line 0 ''[\"A\"]'', fulltext_line 1 ''[\"B\"]'',
                  fulltext_line 2 ''[\"C\"]'', fulltext_line 3 ''[\"D\"]'',
                  fulltext_line 4 ''[\"E\"]''] Header = 1
   \<and> abstracts_loop test_collab
         [[\<lparr>abs_text_ref_id = 7, abs_tc_id1 = 101, abs_tc_id2 = 102,
            title = ''5469746c652041'', abstract = ''41627374726163742041''\<rparr>],
          [\<lparr>abs_text_ref_id = 8, abs_tc_id1 = 103, abs_tc_id2 = 104,
            title = ''54'', abstract = ''41''\<rparr>]] None
       = (None, Some [Header,
                      Data \<lparr>text_ref_id = 7, tc_id1 = 101, tc_id2 = Some 102,
                            text_type = ''abstract'',
                            content = ''[\"Title A\", \"Abstract A\"]''\<rparr>,
                      Data \<lparr>text_ref_id = 8, tc_id1 = 103, tc_id2 = Some 104,
                            text_type = ''abstract'', content = ''[\"T\", \"A\"]''\<rparr>])
   \<and> count_list [Header,
                  Data \<lparr>text_ref_id = 7, tc_id1 = 101, tc_id2 = Some 102,
                        text_type = ''abstract'',
                        content = ''[\"Title A\", \"Abstract A\"]''\<rparr>,
                  Data \<lparr>text_ref_id = 8, tc_id1 = 103, tc_id2 = Some 104,
                        text_type = ''abstract'', content = ''[\"T\", \"A\"]''\<rparr>] Header = 1"
proof -
  let ?inp = "[fulltext_example 0 ''41'', fulltext_example 1 ''42'', fulltext_example 2 ''43'',
        fulltext_example 3 ''44'', fulltext_example 4 ''45'']"
  let ?ls = "[Header, fulltext_line 0 ''[\"A\"]'', fulltext_line 1 ''[\"B\"]'',
                    fulltext_line 2 ''[\"C\"]'', fulltext_line 3 ''[\"D\"]'',
                    fulltext_line 4 ''[\"E\"]'']"
  let ?areader = "[[\<lparr>abs_text_ref_id = 7, abs_tc_id1 = 101, abs_tc_id2 = 102,
            title = ''5469746c652041'', abstract = ''41627374726163742041''\<rparr>],
          [\<lparr>abs_text_ref_id = 8, abs_tc_id1 = 103, abs_tc_id2 = 104,
            title = ''54'', abstract = ''41''\<rparr>]]"
  let ?als = "[Header,
                      Data \<lparr>text_ref_id = 7, tc_id1 = 101, tc_id2 = Some 102,
                            text_type = ''abstract'',
                            content = ''[\"Title A\", \"Abstract A\"]''\<rparr>,
                      Data \<lparr>text_ref_id = 8, tc_id1 = 103, tc_id2 = Some 104,
                            text_type = ''abstract'', content = ''[\"T\", \"A\"]''\<rparr>]"
  have run: "process_raw_fulltexts_csv test_collab in_order ?inp None 2 1 False = (None, Some ?ls)"
    by code_simp
  have windows: "length (chunks 2 ?inp) = 3"
    by code_simp
  have arun: "abstracts_loop test_collab ?areader None = (None, Some ?als)"
    by code_simp
  note inst = header_written_once
               [where E = test_collab and pick = in_order and inp = ?inp and chunksize = 2
                  and n_jobs = 1 and restart = False and err = None and ls = ?ls
                  and areader = ?areader and aerr = None and als = ?als]
  have a: "count_list ?ls Header = 1"
    by (rule inst [THEN conjunct1, THEN mp, OF run, THEN conjunct2])
  have b: "count_list ?als Header = 1"
    by (rule inst [THEN conjunct2, THEN mp, OF arun, THEN conjunct2])
  from run windows a arun b show ?thesis by (intro conjI)
qed

text \<open>
  C9. In a run without \<open>restart\<close> the records of the output are in the order of the input
  rows, within a window and across windows, and each record holds the ids of its own input
  row next to the content made from that row: the records written are those of a leading
  part of the input, row by row, and of all of it when the run ends without an exception.
  This holds for every number of workers and every order in which the workers finish,
  and the file that the run leaves does not depend on that order.
\<close>

theorem output_order_is_input_order:
  assumes "process_raw_fulltexts_csv E pick inp out chunksize n_jobs False = (err, out')"
  shows "(\<exists>rows.
            list_all2 (\<lambda>row r. text_ref_id r = ft_text_ref_id row \<and> tc_id1 r = ft_tc_id1 row
                                \<and> extract_then_dump E (fulltext row) = Inr (content r))
                      (take (length rows) inp) rows
          \<and> (out' = None \<and> rows = [] \<or> out' = Some (Header # map Data rows))
          \<and> (err = None \<longrightarrow> length rows = length inp))
         \<and> snd (process_raw_fulltexts_csv E pick' inp out chunksize n_jobs False) = out'"
proof (rule conjI)
  show "snd (process_raw_fulltexts_csv E pick' inp out chunksize n_jobs False) = out'"
    using process_raw_fulltexts_csv_order_irrelevant [of E pick' inp out chunksize n_jobs False pick]
          assms by simp
next
  let ?R = "\<lambda>row r. text_ref_id r = ft_text_ref_id row \<and> tc_id1 r = ft_tc_id1 row
                                \<and> extract_then_dump E (fulltext row) = Inr (content r)"
  show "\<exists>rows. list_all2 ?R (take (length rows) inp) rows
          \<and> (out' = None \<and> rows = [] \<or> out' = Some (Header # map Data rows))
          \<and> (err = None \<longrightarrow> length rows = length inp)"
  proof (cases "chunksize < 1")
    case True
    with assms have "err = Some ValueError" "out' = None"
      by (simp_all add: process_raw_fulltexts_csv_fresh)
    then show ?thesis by (intro exI [of _ "[]"]) simp
  next
    case False
    define reader where "reader = chunks (nat chunksize) inp"
    from False assms have run: "fulltexts_loop E pick n_jobs reader None = (err, out')"
      by (simp add: process_raw_fulltexts_csv_fresh reader_def)
    from False have cat: "concat reader = inp"
      unfolding reader_def by (intro concat_chunks) simp
    from fulltexts_loop_any [OF run] obtain k where k: "k \<le> length reader"
      "\<forall>row\<in>set (concat (take k reader)). \<not> isl (extract_then_dump E (fulltext row))"
      "out' = (if k = 0 then None
               else Some (start_lines None
                          @ map Data (map (fulltext_row E) (concat (take k reader)))))"
      "err = None \<longleftrightarrow> k = length reader"
      by (elim exE conjE)
    define pre where "pre = concat (take k reader)"
    define rows where "rows = map (fulltext_row E) pre"
    have len: "length rows = length pre" by (simp add: rows_def)
    have pre: "take (length rows) inp = pre"
      using concat_take_prefix [of k reader] by (simp add: len pre_def cat)
    have "list_all2 ?R pre rows"
      unfolding rows_def
    proof (rule list_all2_map_same)
      fix row assume "row \<in> set pre"
      with k(2) have "\<not> isl (extract_then_dump E (fulltext row))"
        unfolding pre_def by blast
      then have "extract_then_dump E (fulltext row)
                   = Inr (projr (extract_then_dump E (fulltext row)))"
        by (rule not_isl_Inr)
      then show "?R row (fulltext_row E row)" by simp
    qed
    then have a: "list_all2 ?R (take (length rows) inp) rows"
      by (simp only: pre)
    have b: "out' = None \<and> rows = [] \<or> out' = Some (Header # map Data rows)"
    proof (cases "k = 0")
      case True
      with k(3) show ?thesis by (simp add: rows_def pre_def)
    next
      case False
      with k(3) show ?thesis by (simp add: rows_def pre_def)
    qed
    have c: "err = None \<longrightarrow> length rows = length inp"
    proof
      assume "err = None"
      with k(4) have "pre = inp" by (simp add: pre_def cat)
      with len show "length rows = length inp" by simp
    qed
    from a b c show ?thesis by (intro exI [of _ rows] conjI)
  qed
qed

theorem output_order_is_input_order_witness:
  "completion_order (last_first 0) [0..<3] = [2, 1, 0]
   \<and> process_raw_fulltexts_csv test_collab last_first
       [fulltext_example 0 ''41'', fulltext_example 1 ''42'', fulltext_example 2 ''43'',
        fulltext_example 3 ''44'', fulltext_example 4 ''45''] None 3 2 False
     = (None, Some [Header, fulltext_line 0 ''[\"A\"]'', fulltext_line 1 ''[\"B\"]'',
                    fulltext_line 2 ''[\"C\"]'', fulltext_line 3 ''[\"D\"]'',
                    fulltext_line 4 ''[\"E\"]''])
   \<and> snd (process_raw_fulltexts_csv test_collab in_order
       [fulltext_example 0 ''41'', fulltext_example 1 ''42'', fulltext_example 2 ''43'',
        fulltext_example 3 ''44'', fulltext_example 4 ''45''] None 3 2 False)
     = Some [Header, fulltext_line 0 ''[\"A\"]'', fulltext_line 1 ''[\"B\"]'',
             fulltext_line 2 ''[\"C\"]'', fulltext_line 3 ''[\"D\"]'',
             fulltext_line 4 ''[\"E\"]'']
   \<and> (\<exists>rows.
         list_all2 (\<lambda>row r. text_ref_id r = ft_text_ref_id row \<and> tc_id1 r = ft_tc_id1 row
                             \<and> extract_then_dump test_collab (fulltext row) = Inr (content r))
           [fulltext_example 0 ''41'', fulltext_example 1 ''42'', fulltext_example 2 ''43'',
            fulltext_example 3 ''44'', fulltext_example 4 ''45''] rows
       \<and> [fulltext_line 0 ''[\"A\"]'', fulltext_line 1 ''[\"B\"]'', fulltext_line 2 ''[\"C\"]'',
          fulltext_line 3 ''[\"D\"]'', fulltext_line 4 ''[\"E\"]''] = map Data rows)"
proof -
  let ?inp = "[fulltext_example 0 ''41'', fulltext_example 1 ''42'', fulltext_example 2 ''43'',
        fulltext_example 3 ''44'', fulltext_example 4 ''45'']"
  let ?ds = "[fulltext_line 0 ''[\"A\"]'', fulltext_line 1 ''[\"B\"]'', fulltext_line 2 ''[\"C\"]'',
          fulltext_line 3 ''[\"D\"]'', fulltext_line 4 ''[\"E\"]'']"
  let ?R = "\<lambda>row r. text_ref_id r = ft_text_ref_id row \<and> tc_id1 r = ft_tc_id1 row
                             \<and> extract_then_dump test_collab (fulltext row) = Inr (content r)"
  have order: "completion_order (last_first 0) [0..<3] = [2, 1, 0]"
    by code_simp
  have run: "process_raw_fulltexts_csv test_collab last_first ?inp None 3 2 False
               = (None, Some (Header # ?ds))"
    by code_simp
  note inst = output_order_is_input_order [OF run, where pick' = in_order]
  from inst [THEN conjunct2]
  have other: "snd (process_raw_fulltexts_csv test_collab in_order ?inp None 3 2 False)
                 = Some (Header # ?ds)" .
  from inst [THEN conjunct1] obtain rows where
    h: "list_all2 ?R (take (length rows) ?inp) rows"
       "Some (Header # ?ds) = None \<and> rows = [] \<or> Some (Header # ?ds) = Some (Header # map Data rows)"
       "None = (None :: error option) \<longrightarrow> length rows = length ?inp"
    by (elim exE conjE)
  from h(3) have len: "length rows = length ?inp" by simp
  from h(1) have a: "list_all2 ?R ?inp rows" unfolding len by simp
  from h(2) have b: "?ds = map Data rows" by simp
  have ex: "\<exists>rows. list_all2 ?R ?inp rows \<and> ?ds = map Data rows"
    using a b by (intro exI [of _ rows] conjI)
  from order run other ex show ?thesis by (intro conjI)
qed

end
